theory Spec2Isabelle
  imports Main "HOL-Library.Sublist"
begin

section \<open>Python strings: \<^verbatim>\<open>str.replace\<close>\<close>

text \<open>
  \<^verbatim>\<open>s.replace(old, new, count)\<close> for a non-negative \<open>count\<close>: scanning \<open>s\<close> from the
  left, the first \<open>count\<close> non-overlapping occurrences of \<open>old\<close> are replaced by \<open>new\<close>.
  An empty \<open>old\<close> matches before every character and at the end of the string.
\<close>

fun replace :: "'a list \<Rightarrow> 'a list \<Rightarrow> nat \<Rightarrow> 'a list \<Rightarrow> 'a list" where
  "replace old new 0 s = s"
| "replace old new (Suc n) [] = (if old = [] then new else [])"
| "replace old new (Suc n) (c # cs) =
     (if old = [] then new @ c # replace old new n cs
      else if prefix old (c # cs) then new @ replace old new n (drop (length old) (c # cs))
      else c # replace old new (Suc n) cs)"

section \<open>The literals of \<^verbatim>\<open>insert_setup.py\<close>\<close>

definition path :: string where
  \<open>path = ''web/index.html''\<close>

definition marker :: string where
  \<open>marker = ''    <!-- Login Modal (standard) -->''\<close>

text \<open>
  The triple-quoted literal \<^verbatim>\<open>setup_html\<close>: every line of it, the last (empty) one
  included, is followed by a line feed.
\<close>

definition setup_html_lines :: "string list" where
  \<open>setup_html_lines =
    [
     ''    <!-- Setup Wizard (first run) -->'',
     ''    <div class="setup-overlay" id="setupOverlay">'',
     ''        <div class="setup-card">'',
     ''            <div class="setup-logo">CineVault Setup</div>'',
     ''            <div class="setup-subtitle">Create your admin account to get started</div>'',
     ''            <div id="setupMessage"></div>'',
     ''            <form id="setupForm">'',
     ''                <div class="form-group">'',
     ''                    <label>Username</label>'',
     ''                    <input type="text" id="setupUsername" required autocomplete="username">'',
     ''                </div>'',
     ''                <div class="setup-row">'',
     ''                    <div class="form-group">'',
     ''                        <label>First Name</label>'',
     ''                        <input type="text" id="setupFirstName" required>'',
     ''                    </div>'',
     ''                    <div class="form-group">'',
     ''                        <label>Last Name</label>'',
     ''                        <input type="text" id="setupLastName" required>'',
     ''                    </div>'',
     ''                </div>'',
     ''                <div class="form-group">'',
     ''                    <label>Email</label>'',
     ''                    <input type="email" id="setupEmail" required autocomplete="email">'',
     ''                </div>'',
     ''                <div class="form-group">'',
     ''                    <label>Password</label>'',
     ''                    <input type="password" id="setupPassword" required autocomplete="new-password">'',
     ''                </div>'',
     ''                <div class="form-group">'',
     ''                    <label>PIN (for fast login)</label>'',
     ''                    <input type="text" id="setupPin" inputmode="numeric" maxlength="10" autocomplete="off" placeholder="4-digit PIN">'',
     ''                    <div class="setup-pin-note">Numeric only. Used for quick sign-in on shared devices.</div>'',
     ''                </div>'',
     ''                <button type="submit" class="btn-primary" style="width:100%;margin-top:16px;">Create Admin Account</button>'',
     ''            </form>'',
     ''        </div>'',
     ''    </div>'',
     ''''
    ]\<close>

definition setup_html :: string where
  \<open>setup_html = concat (map (\<lambda>l. l @ [CHR 0x0A]) setup_html_lines)\<close>

text \<open>Line 48: \<^verbatim>\<open>content = content.replace(marker, setup_html + marker, 1)\<close>.\<close>

definition insert_setup :: "string \<Rightarrow> string" where
  \<open>insert_setup content = replace marker (setup_html @ marker) 1 content\<close>

section \<open>Occurrences of a substring\<close>

text \<open>
  \<open>positions m c\<close> lists, in increasing order, every index of \<open>c\<close> at which a copy of
  \<open>m\<close> starts (overlapping copies included); \<open>first_index\<close> is Python's
  \<^verbatim>\<open>str.find\<close> with \<open>None\<close> for \<^verbatim>\<open>-1\<close>.
\<close>

fun positions :: "'a list \<Rightarrow> 'a list \<Rightarrow> nat list" where
  "positions m [] = (if m = [] then [0] else [])"
| "positions m (c # cs) = (if prefix m (c # cs) then [0] else []) @ map Suc (positions m cs)"


fun first_index :: "'a list \<Rightarrow> 'a list \<Rightarrow> nat option" where
  "first_index m [] = (if m = [] then Some 0 else None)"
| "first_index m (c # cs) = (if prefix m (c # cs) then Some 0 else map_option Suc (first_index m cs))"

text \<open>\<open>occurs_at m c i\<close>: a copy of \<open>m\<close> starts at index \<open>i\<close> of \<open>c\<close>.\<close>

definition occurs_at :: "'a list \<Rightarrow> 'a list \<Rightarrow> nat \<Rightarrow> bool" where
  "occurs_at m c i = (i \<le> length c \<and> prefix m (drop i c))"

section \<open>The file system and the standard streams\<close>

text \<open>
  The exceptions the script can raise: \<^verbatim>\<open>open\<close> on a missing file or without the
  permission, \<^verbatim>\<open>read\<close> on bytes that are no text in the default encoding, and a
  \<^verbatim>\<open>write\<close> the device refuses (here: for lack of space).
\<close>

datatype py_error = FileNotFoundError | PermissionError | UnicodeDecodeError | OSError

text \<open>
  A file holds the text a text-mode \<^verbatim>\<open>read\<close> returns, that is the characters after
  decoding and newline translation (\<open>None\<close> when its bytes do not decode), and the
  permissions of the user running the script. The characters on the disk behind that
  text are the subject of \<open>rewritten\<close> below. The world is the file system, the room left
  on the device (\<open>None\<close>: no limit) and what has been written to the two standard streams.
\<close>

record text_file =
  contents :: "string option"
  perm_r :: bool
  perm_w :: bool

record world =
  fs :: "string \<rightharpoonup> text_file"
  space :: "nat option"
  stdout :: string
  stderr :: string

definition fits :: "nat option \<Rightarrow> string \<Rightarrow> bool" where
  "fits sp s = (case sp of None \<Rightarrow> True | Some k \<Rightarrow> length s \<le> k)"

definition store :: "world \<Rightarrow> string \<Rightarrow> text_file \<Rightarrow> world" where
  "store w p f = w\<lparr>fs := (fs w)(p \<mapsto> f)\<rparr>"

text \<open>\<^verbatim>\<open>open(p, 'r')\<close> and \<^verbatim>\<open>f.read()\<close>: neither changes the world.\<close>

definition open_r :: "world \<Rightarrow> string \<Rightarrow> py_error + text_file" where
  "open_r w p =
     (case fs w p of
        None \<Rightarrow> Inl FileNotFoundError
      | Some f \<Rightarrow> if perm_r f then Inr f else Inl PermissionError)"

definition f_read :: "text_file \<Rightarrow> py_error + string" where
  "f_read f = (case contents f of None \<Rightarrow> Inl UnicodeDecodeError | Some t \<Rightarrow> Inr t)"

text \<open>
  \<^verbatim>\<open>open(p, 'w')\<close>: a file that may not be written is refused and stays as it is; any
  other is truncated (a missing one is created empty) before the first byte is written.
\<close>

definition open_w :: "world \<Rightarrow> string \<Rightarrow> py_error + (text_file \<times> world)" where
  "open_w w p =
     (case fs w p of
        None \<Rightarrow>
          (let f = \<lparr>contents = Some [], perm_r = True, perm_w = True\<rparr>
           in Inr (f, store w p f))
      | Some f \<Rightarrow>
          if perm_w f
          then (let f' = f\<lparr>contents := Some []\<rparr> in Inr (f', store w p f'))
          else Inl PermissionError)"

text \<open>
  \<^verbatim>\<open>f.write(s)\<close> up to the close of the file: when the device has no room for \<open>s\<close>,
  the part that fitted stays in the file and \<^verbatim>\<open>OSError\<close> is raised.
\<close>

definition f_write :: "world \<Rightarrow> string \<Rightarrow> text_file \<Rightarrow> string \<Rightarrow> py_error option \<times> world" where
  "f_write w p f s =
     (case space w of
        None \<Rightarrow> (None, store w p (f\<lparr>contents := Some s\<rparr>))
      | Some k \<Rightarrow>
          if length s \<le> k
          then (None, store w p (f\<lparr>contents := Some s\<rparr>))
          else (Some OSError, store w p (f\<lparr>contents := Some (take k s)\<rparr>)))"

text \<open>
  \<^verbatim>\<open>print(s)\<close>: the text and a line feed, on the standard output, which is taken to
  accept them.
\<close>

definition print :: "string \<Rightarrow> world \<Rightarrow> world" where
  "print s w = w\<lparr>stdout := stdout w @ s @ [CHR 0x0A]\<rparr>"

section \<open>The script\<close>

text \<open>
  The statements of \<^verbatim>\<open>insert_setup.py\<close> in their order. The script catches nothing: the
  first exception ends it, with the world as it is at that moment.
\<close>

definition script :: "world \<Rightarrow> py_error option \<times> world" where
  "script w =
     (case open_r w path of
        Inl e \<Rightarrow> (Some e, w)
      | Inr f \<Rightarrow>
          (case f_read f of
             Inl e \<Rightarrow> (Some e, w)
           | Inr content \<Rightarrow>
               (let content' = replace marker (setup_html @ marker) 1 content in
                (case open_w w path of
                   Inl e \<Rightarrow> (Some e, w)
                 | Inr (g, w1) \<Rightarrow>
                     (case f_write w1 path g content' of
                        (Some e, w2) \<Rightarrow> (Some e, w2)
                      | (None, w2) \<Rightarrow>
                          (None, print ''Setup wizard HTML inserted successfully'' w2))))))"

text \<open>
  Modelled from the spec: the top level that runs the script and receives the exception
  the script does not catch. It is the Python interpreter, not code under
  \<^verbatim>\<open>src/\<close>. Spec 6: success (0) on normal completion, any uncaught filesystem error maps
  to a non-zero exit code with a human-readable message to the standard error stream;
  spec 7: access errors end the process with a diagnostic message naming the path.
  \<open>diagnostic\<close> is that message, in the wording of the last line of the interpreter's
  traceback: the class of the exception, the error number and text of the operating
  system and, for a failed \<^verbatim>\<open>open\<close>, the quoted path. For \<^verbatim>\<open>UnicodeDecodeError\<close> the
  interpreter goes on with the codec and the offending byte, which the world does not
  hold.
\<close>

definition quoted :: "string \<Rightarrow> string" where
  "quoted s = [CHR 0x27] @ s @ [CHR 0x27]"

fun diagnostic :: "py_error \<Rightarrow> string" where
  "diagnostic FileNotFoundError =
     ''FileNotFoundError: [Errno 2] No such file or directory: '' @ quoted path"
| "diagnostic PermissionError =
     ''PermissionError: [Errno 13] Permission denied: '' @ quoted path"
| "diagnostic UnicodeDecodeError = ''UnicodeDecodeError''"
| "diagnostic OSError = ''OSError: [Errno 28] No space left on device''"

text \<open>
  Modelled from the spec: what the top level writes to the standard error for an
  uncaught exception (spec 6 and 7, as above): the header line of the traceback and the
  diagnostic line. The stack frames the interpreter prints between the two depend on how
  the script was started and are left out.
\<close>

definition traceback :: "py_error \<Rightarrow> string" where
  "traceback e =
     ''Traceback (most recent call last):'' @ [CHR 0x0A] @ diagnostic e @ [CHR 0x0A]"

text \<open>
  Modelled from the spec: the exit status of a run (spec 6: 0 on normal completion,
  non-zero for an uncaught error; the interpreter's non-zero status is 1) and the report
  of the error on the standard error.
\<close>

definition main :: "world \<Rightarrow> nat \<times> world" where
  "main w =
     (case script w of
        (None, w') \<Rightarrow> (0, w')
      | (Some e, w') \<Rightarrow> (1, w'\<lparr>stderr := stderr w' @ traceback e\<rparr>))"

text \<open>The text of the target file, as the script would read it.\<close>

definition file_text :: "world \<Rightarrow> string option" where
  "file_text w = (case fs w path of None \<Rightarrow> None | Some f \<Rightarrow> contents f)"

text \<open>
  The conditions under which the reading half and the writing half of the script go
  through, stated on the world and not on the script.
\<close>

definition read_ok :: "world \<Rightarrow> bool" where
  "read_ok w =
     (case fs w path of None \<Rightarrow> False | Some f \<Rightarrow> perm_r f \<and> contents f \<noteq> None)"

definition write_ok :: "world \<Rightarrow> bool" where
  "write_ok w =
     (case fs w path of
        None \<Rightarrow> False
      | Some f \<Rightarrow>
          perm_w f \<and>
          (case contents f of None \<Rightarrow> False | Some t \<Rightarrow> fits (space w) (insert_setup t)))"

text \<open>A world that holds the target file only, with nothing printed yet.\<close>

definition world_with :: "string option \<Rightarrow> bool \<Rightarrow> bool \<Rightarrow> nat option \<Rightarrow> world" where
  "world_with t r wr sp =
     \<lparr>fs = [path \<mapsto> \<lparr>contents = t, perm_r = r, perm_w = wr\<rparr>],
      space = sp, stdout = [], stderr = []\<rparr>"

section \<open>The characters on the disk\<close>

text \<open>
  Lines 2 and 50 open the file in text mode and give no \<^verbatim>\<open>newline\<close> argument. What
  \<^verbatim>\<open>f.read()\<close> returns is then not the decoded characters of the file but their
  translation: every carriage return followed by a line feed, and every other carriage
  return, is read as one line feed.
\<close>

fun universal_newlines :: "string \<Rightarrow> string" where
  "universal_newlines [] = []"
| "universal_newlines [c] = (if c = CHR 0x0D then [CHR 0x0A] else [c])"
| "universal_newlines (c # d # cs) =
     (if c = CHR 0x0D \<and> d = CHR 0x0A then CHR 0x0A # universal_newlines cs
      else if c = CHR 0x0D then CHR 0x0A # universal_newlines (d # cs)
      else c # universal_newlines (d # cs))"

text \<open>
  In the other direction \<^verbatim>\<open>f.write(s)\<close> puts the line separator \<open>sep\<close> of the platform
  (\<^verbatim>\<open>os.linesep\<close>: a line feed on POSIX systems, carriage return and line feed on
  Windows) in the place of every line feed of \<open>s\<close>.
\<close>

definition linesep_newlines :: "string \<Rightarrow> string \<Rightarrow> string" where
  "linesep_newlines sep s = concat (map (\<lambda>c. if c = CHR 0x0A then sep else [c]) s)"

text \<open>
  The characters of the file after a run that ends normally, from those before it: lines
  2 and 3, line 48, lines 50 and 51. The codec between bytes and characters is the same
  in both directions, so the bytes of the file are kept exactly when these characters are.
\<close>

definition rewritten :: "string \<Rightarrow> string \<Rightarrow> string" where
  "rewritten sep raw = linesep_newlines sep (insert_setup (universal_newlines raw))"

section \<open>Occurrences and the first index\<close>

text \<open>
  How \<open>positions\<close> splits over an append, what \<open>first_index\<close> returns, and what one
  replacement does in terms of the first index.
\<close>

lemma occurs_at_Cons_Suc: "occurs_at m (x # c) (Suc i) = occurs_at m c i"
  by (simp add: occurs_at_def)

lemma occurs_at_0: "occurs_at m c 0 = prefix m c"
  by (simp add: occurs_at_def)



lemma set_positions: "set (positions m c) = {i. occurs_at m c i}"
proof (induction c)
  case Nil
  show ?case by (auto simp: occurs_at_def)
next
  case (Cons x c)
  show ?case
  proof (rule set_eqI)
    fix i
    show "i \<in> set (positions m (x # c)) \<longleftrightarrow> i \<in> {i. occurs_at m (x # c) i}"
      using Cons by (cases i) (auto simp: occurs_at_Cons_Suc occurs_at_0)
  qed
qed

lemma first_index_positions:
  "first_index m c = (case positions m c of [] \<Rightarrow> None | i # _ \<Rightarrow> Some i)"
  by (induction c) (auto split: list.splits)

lemma first_index_None: "first_index m c = None \<longleftrightarrow> \<not> sublist m c"
  by (induction c) (auto simp: sublist_Cons_right)

lemma first_index_SomeD:
  "first_index m c = Some i \<Longrightarrow> occurs_at m c i \<and> (\<forall>j<i. \<not> occurs_at m c j)"
proof (induction c arbitrary: i)
  case Nil
  then show ?case by (auto simp: occurs_at_def split: if_splits)
next
  case (Cons x c)
  show ?case
  proof (cases "prefix m (x # c)")
    case True
    with Cons.prems show ?thesis by (simp add: occurs_at_0)
  next
    case False
    with Cons.prems obtain i' where i': "first_index m c = Some i'" "i = Suc i'"
      by auto
    from Cons.IH[OF i'(1)] have ih: "occurs_at m c i'" "\<forall>j<i'. \<not> occurs_at m c j"
      by simp_all
    have "\<not> occurs_at m (x # c) j" if "j < i" for j
      using that False ih(2) i'(2) by (cases j) (auto simp: occurs_at_0 occurs_at_Cons_Suc)
    with ih(1) i'(2) show ?thesis by (simp add: occurs_at_Cons_Suc)
  qed
qed

lemma occurs_at_first_index:
  "occurs_at m c i \<Longrightarrow> \<forall>j<i. \<not> occurs_at m c j \<Longrightarrow> first_index m c = Some i"
proof -
  assume a: "occurs_at m c i" and b: "\<forall>j<i. \<not> occurs_at m c j"
  from a have "i \<in> set (positions m c)" by (simp add: set_positions)
  then obtain k where k: "first_index m c = Some k"
    by (cases "positions m c") (auto simp: first_index_positions)
  from first_index_SomeD[OF k] a b have "k = i"
    by (meson linorder_neqE_nat)
  with k show ?thesis by simp
qed

lemma occurs_at_split: "occurs_at m c i \<Longrightarrow> drop i c = m @ drop (i + length m) c"
proof -
  assume "occurs_at m c i"
  then obtain r where r: "drop i c = m @ r" by (auto simp: occurs_at_def prefix_def)
  have "drop (i + length m) c = drop (length m) (drop i c)" by (simp add: add.commute)
  with r show ?thesis by simp
qed

lemma replace_once:
  "replace old new (Suc 0) c =
     (case first_index old c of None \<Rightarrow> c | Some i \<Rightarrow> take i c @ new @ drop (i + length old) c)"
  by (induction c) (auto split: option.splits)

lemma insert_setup_eq:
  "insert_setup C =
     (case first_index marker C of None \<Rightarrow> C | Some i \<Rightarrow> take i C @ setup_html @ drop i C)"
proof (cases "first_index marker C")
  case None
  then show ?thesis by (simp add: insert_setup_def replace_once)
next
  case (Some i)
  from first_index_SomeD[OF Some] have "drop i C = marker @ drop (i + length marker) C"
    by (simp add: occurs_at_split)
  with Some show ?thesis by (simp add: insert_setup_def replace_once)
qed

section \<open>The marker and the block\<close>



lemma marker_no_newline: "CHR 0x0A \<notin> set marker"
  by (simp add: marker_def)





lemma length_marker: "length marker = 35"
  by (simp add: marker_def)




section \<open>Runs of the script\<close>

text \<open>
  The outcome of the script in each situation of the target file: readable and writable
  with room for the new text, not readable, not writable, and writable without room.
\<close>

lemma store_store: "store (store w p f) p g = store w p g"
  by (simp add: store_def)

lemma script_ok:
  assumes "fs w path = Some f" and "perm_r f" and "contents f = Some C"
      and "perm_w f" and "fits (space w) (insert_setup C)"
  shows "script w =
           (None, print ''Setup wizard HTML inserted successfully''
                    (store w path (f\<lparr>contents := Some (insert_setup C)\<rparr>)))"
  using assms
  by (simp add: script_def open_r_def f_read_def open_w_def f_write_def insert_setup_def
      fits_def store_def Let_def split: option.splits)

lemma script_okD:
  assumes "script w = (None, w')"
  shows "\<exists>f C. fs w path = Some f \<and> perm_r f \<and> contents f = Some C \<and> perm_w f \<and>
           fits (space w) (insert_setup C) \<and>
           w' = print ''Setup wizard HTML inserted successfully''
                  (store w path (f\<lparr>contents := Some (insert_setup C)\<rparr>))"
  using assms
  by (auto simp: script_def open_r_def f_read_def open_w_def f_write_def insert_setup_def
      fits_def store_def Let_def split: option.splits if_splits)

lemma file_text_print_store:
  "file_text (print s (store w path f)) = contents f"
  by (simp add: file_text_def print_def store_def)

lemma script_ok_text:
  assumes "script w = (None, w')"
  shows "\<exists>C. file_text w = Some C \<and> file_text w' = Some (insert_setup C)"
proof -
  from script_okD[OF assms] obtain f C where
    "fs w path = Some f" "contents f = Some C"
    "w' = print ''Setup wizard HTML inserted successfully''
            (store w path (f\<lparr>contents := Some (insert_setup C)\<rparr>))"
    by blast
  then show ?thesis by (simp add: file_text_print_store) (simp add: file_text_def)
qed

lemma script_unreadable:
  "\<not> read_ok w \<Longrightarrow> \<exists>e. script w = (Some e, w)"
  by (auto simp: read_ok_def script_def open_r_def f_read_def split: option.splits)

lemma script_unwritable:
  assumes "fs w path = Some f" and "perm_r f" and "contents f = Some C" and "\<not> perm_w f"
  shows "script w = (Some PermissionError, w)"
  using assms by (simp add: script_def open_r_def f_read_def open_w_def)

lemma script_no_space:
  assumes "fs w path = Some f" and "perm_r f" and "contents f = Some C" and "perm_w f"
      and "space w = Some k" and "k < length (insert_setup C)"
  shows "script w =
           (Some OSError, store w path (f\<lparr>contents := Some (take k (insert_setup C))\<rparr>))"
  using assms
  by (simp add: script_def open_r_def f_read_def open_w_def f_write_def insert_setup_def
      store_def Let_def)

lemma script_stderr: "stderr (snd (script w)) = stderr w"
  by (auto simp: script_def open_r_def f_read_def open_w_def f_write_def store_def print_def
      Let_def split: option.splits sum.splits)

lemma script_None_iff: "fst (script w) = None \<longleftrightarrow> read_ok w \<and> write_ok w"
proof (cases "fs w path")
  case None
  then show ?thesis by (simp add: read_ok_def script_def open_r_def)
next
  case (Some f)
  show ?thesis
  proof (cases "perm_r f \<and> contents f \<noteq> None")
    case False
    with Some have "\<not> read_ok w" by (simp add: read_ok_def)
    with script_unreadable[OF this] show ?thesis by auto
  next
    case True
    then obtain C where C: "perm_r f" "contents f = Some C" by auto
    with Some have r: "read_ok w" by (simp add: read_ok_def)
    show ?thesis
    proof (cases "perm_w f")
      case False
      with script_unwritable[OF Some C this] Some show ?thesis by (simp add: write_ok_def)
    next
      case True
      show ?thesis
      proof (cases "fits (space w) (insert_setup C)")
        case True
        with script_ok[OF Some C \<open>perm_w f\<close> this] Some C r \<open>perm_w f\<close>
        show ?thesis by (simp add: write_ok_def)
      next
        case False
        then obtain k where "space w = Some k" "k < length (insert_setup C)"
          by (auto simp: fits_def split: option.splits)
        with script_no_space[OF Some C \<open>perm_w f\<close> this] False Some C
        show ?thesis by (simp add: write_ok_def)
      qed
    qed
  qed
qed

section \<open>Consequences used by the properties\<close>


lemma marker_nonempty: "marker \<noteq> []"
  using length_marker by auto



lemma sublist_first_index: "sublist m c \<Longrightarrow> \<exists>i. first_index m c = Some i"
  using first_index_None[of m c] by auto


lemma insert_setup_at:
  "first_index marker C = Some i \<Longrightarrow> insert_setup C = take i C @ setup_html @ drop i C"
  by (simp add: insert_setup_eq)

lemma insert_setup_absent: "\<not> sublist marker C \<Longrightarrow> insert_setup C = C"
  by (simp add: insert_setup_eq flip: first_index_None)

lemma first_index_le: "first_index m c = Some i \<Longrightarrow> i \<le> length c"
  using first_index_SomeD[of m c i] by (simp add: occurs_at_def)


lemma main_ok: "fst (script w) = None \<Longrightarrow> main w = (0, snd (script w))"
  by (cases "script w") (simp add: main_def)

lemma main_failed:
  "fst (script w) = Some e \<Longrightarrow>
   main w = (1, (snd (script w))\<lparr>stderr := stderr (snd (script w)) @ traceback e\<rparr>)"
  by (cases "script w") (simp add: main_def)

section \<open>Properties of the insertion\<close>









text \<open>
  On the text the script reads, cutting the block out of the replaced text gives that
  text back.
\<close>

lemma removing_block_text:
  assumes "sublist marker C"
  shows "\<exists>i. first_index marker C = Some i \<and>
           take (length setup_html) (drop i (insert_setup C)) = setup_html \<and>
           take i (insert_setup C) @ drop (i + length setup_html) (insert_setup C) = C"
proof -
  from sublist_first_index[OF assms] obtain i where fi: "first_index marker C = Some i" ..
  have il: "i \<le> length C" using fi by (rule first_index_le)
  have R: "insert_setup C = take i C @ setup_html @ drop i C" using fi by (rule insert_setup_at)
  have "take (length setup_html) (drop i (insert_setup C)) = setup_html"
    unfolding R using il by simp
  moreover have "take i (insert_setup C) @ drop (i + length setup_html) (insert_setup C) = C"
    unfolding R using il by simp
  ultimately show ?thesis using fi by blast
qed

text \<open>
  The translation on reading leaves a text without carriage return as it is, changes no
  copy of a string that has neither carriage return nor line feed, and with the line feed
  as separator the translation on writing is the identity.
\<close>

lemma universal_newlines_id: "CHR 0x0D \<notin> set c \<Longrightarrow> universal_newlines c = c"
  by (induction c rule: universal_newlines.induct) auto

lemma universal_newlines_Cons:
  "x \<noteq> CHR 0x0D \<Longrightarrow> universal_newlines (x # cs) = x # universal_newlines cs"
  by (cases cs) auto

lemma universal_newlines_CR:
  "\<exists>r. universal_newlines (CHR 0x0D # cs) = CHR 0x0A # r"
  by (cases cs) auto

lemma prefix_universal_newlines:
  assumes "CHR 0x0D \<notin> set m" and "CHR 0x0A \<notin> set m"
  shows "prefix m (universal_newlines c) = prefix m c"
  using assms
proof (induction m arbitrary: c)
  case Nil
  then show ?case by simp
next
  case (Cons a m)
  show ?case
  proof (cases c)
    case Nil
    then show ?thesis by simp
  next
    case (Cons x cs)
    show ?thesis
    proof (cases "x = CHR 0x0D")
      case True
      obtain r where "universal_newlines (CHR 0x0D # cs) = CHR 0x0A # r"
        using universal_newlines_CR by blast
      with True Cons Cons.prems show ?thesis by auto
    next
      case False
      with Cons Cons.IH[of cs] Cons.prems show ?thesis
        by (simp add: universal_newlines_Cons)
    qed
  qed
qed

lemma sublist_universal_newlines:
  assumes "CHR 0x0D \<notin> set m" and "CHR 0x0A \<notin> set m" and "m \<noteq> []"
  shows "sublist m (universal_newlines c) = sublist m c"
proof (induction c rule: length_induct)
  case (1 c)
  show ?case
  proof (cases c)
    case Nil
    then show ?thesis by simp
  next
    case (Cons x cs)
    have pre: "prefix m (universal_newlines c) = prefix m c"
      using assms(1,2) by (rule prefix_universal_newlines)
    have tl: "sublist m (universal_newlines cs) = sublist m cs"
      using 1 Cons by simp
    show ?thesis
    proof (cases "x = CHR 0x0D")
      case False
      have "sublist m (universal_newlines c) \<longleftrightarrow>
              prefix m (universal_newlines c) \<or> sublist m (universal_newlines cs)"
        using False Cons by (simp add: universal_newlines_Cons sublist_Cons_right)
      with pre tl Cons show ?thesis by (simp add: sublist_Cons_right)
    next
      case True
      have np: "\<not> prefix m (y # r)" if "y = CHR 0x0D \<or> y = CHR 0x0A" for y r
        using that assms by (cases m) auto
      show ?thesis
      proof (cases cs)
        case Nil
        with True Cons np show ?thesis
          using assms(3) by (simp add: sublist_Cons_right)
      next
        case (Cons d ds)
        note c = \<open>c = x # cs\<close>
        show ?thesis
        proof (cases "d = CHR 0x0A")
          case True
          have "sublist m (universal_newlines ds) = sublist m ds"
            using 1 c Cons by simp
          with True \<open>x = CHR 0x0D\<close> c Cons np show ?thesis
            by (simp add: sublist_Cons_right)
        next
          case False
          with \<open>x = CHR 0x0D\<close> c Cons tl np show ?thesis
            by (simp add: sublist_Cons_right)
        qed
      qed
    qed
  qed
qed

lemma marker_no_return: "CHR 0x0D \<notin> set marker"
  by (simp add: marker_def)

lemma linesep_newlines_LF: "linesep_newlines [CHR 0x0A] s = s"
  by (induction s) (simp_all add: linesep_newlines_def)

lemma rewritten_LF: "rewritten [CHR 0x0A] C = insert_setup (universal_newlines C)"
  by (simp add: rewritten_def linesep_newlines_LF)

text \<open>
  Claim C5, as stated, fails on the characters of the file. A file that holds a carriage
  return and a line feed before the marker is written back with the line feed alone: the
  result is one character short of the file plus the block, so cutting the block out of
  it, at the marker's index in the file or at its index in the text read, does not give
  the file back.
\<close>

theorem removing_block_counterexample:
  "sublist marker ([CHR 0x0D, CHR 0x0A] @ marker) \<and>
   first_index marker ([CHR 0x0D, CHR 0x0A] @ marker) = Some 2 \<and>
   rewritten [CHR 0x0A] ([CHR 0x0D, CHR 0x0A] @ marker) = CHR 0x0A # setup_html @ marker \<and>
   length (rewritten [CHR 0x0A] ([CHR 0x0D, CHR 0x0A] @ marker)) \<noteq>
     length ([CHR 0x0D, CHR 0x0A] @ marker) + length setup_html \<and>
   take 2 (rewritten [CHR 0x0A] ([CHR 0x0D, CHR 0x0A] @ marker)) @
     drop (2 + length setup_html) (rewritten [CHR 0x0A] ([CHR 0x0D, CHR 0x0A] @ marker))
     \<noteq> [CHR 0x0D, CHR 0x0A] @ marker \<and>
   take 1 (rewritten [CHR 0x0A] ([CHR 0x0D, CHR 0x0A] @ marker)) @
     drop (1 + length setup_html) (rewritten [CHR 0x0A] ([CHR 0x0D, CHR 0x0A] @ marker))
     \<noteq> [CHR 0x0D, CHR 0x0A] @ marker"
proof -
  let ?C = "[CHR 0x0D, CHR 0x0A] @ marker"
  let ?R = "rewritten [CHR 0x0A] ?C"
  have "?C = [CHR 0x0D, CHR 0x0A] @ marker @ []" by simp
  then have h: "sublist marker ?C" unfolding sublist_def by blast
  have f: "first_index marker ?C = Some 2" by code_simp
  have u: "universal_newlines ?C = CHR 0x0A # marker"
    using universal_newlines_id[OF marker_no_return] by simp
  have "first_index marker (CHR 0x0A # marker) = Some 1" by code_simp
  from insert_setup_at[OF this] have "insert_setup (CHR 0x0A # marker) = CHR 0x0A # setup_html @ marker"
    by simp
  then have R: "?R = CHR 0x0A # setup_html @ marker" by (simp only: rewritten_LF u)
  have lR: "length ?R = 36 + length setup_html"
    by (simp only: R) (simp add: length_marker)
  have lC: "length ?C = 37" by (simp add: length_marker)
  have l: "length ?R \<noteq> length ?C + length setup_html" using lR lC by simp
  have "length (take 2 ?R @ drop (2 + length setup_html) ?R) = 36" using lR by simp
  then have "length (take 2 ?R @ drop (2 + length setup_html) ?R) \<noteq> length ?C"
    by (simp only: lC)
  then have a: "take 2 ?R @ drop (2 + length setup_html) ?R \<noteq> ?C" by metis
  have "length (take 1 ?R @ drop (1 + length setup_html) ?R) = 36" using lR by simp
  then have "length (take 1 ?R @ drop (1 + length setup_html) ?R) \<noteq> length ?C"
    by (simp only: lC)
  then have b: "take 1 ?R @ drop (1 + length setup_html) ?R \<noteq> ?C" by metis
  from h f R l a b show ?thesis by blast
qed

text \<open>
  Claim C5, amended. With the line feed as the line separator of the platform, and for
  every file that holds the marker: the characters of the result that start at the index
  of the first marker of the text read, as many as the block has, are the block, and
  cutting them out gives the file with every carriage return and line feed pair, and
  every other carriage return, turned into a line feed. For a file without carriage
  return that is the file itself, character for character.
\<close>

theorem removing_block_restores_newlines:
  assumes "sublist marker C"
  shows "\<exists>i. first_index marker (universal_newlines C) = Some i \<and>
           take (length setup_html) (drop i (rewritten [CHR 0x0A] C)) = setup_html \<and>
           take i (rewritten [CHR 0x0A] C) @
             drop (i + length setup_html) (rewritten [CHR 0x0A] C) = universal_newlines C \<and>
           (CHR 0x0D \<notin> set C \<longrightarrow> universal_newlines C = C)"
proof -
  have "sublist marker (universal_newlines C)"
    using assms marker_no_return marker_no_newline marker_nonempty
    by (simp add: sublist_universal_newlines)
  from removing_block_text[OF this] universal_newlines_id[of C]
  show ?thesis by (auto simp: rewritten_LF)
qed

theorem removing_block_restores_newlines_witness:
  "sublist marker (''a'' @ [CHR 0x0D, CHR 0x0A] @ marker @ ''b'') \<and>
   take 2 (rewritten [CHR 0x0A] (''a'' @ [CHR 0x0D, CHR 0x0A] @ marker @ ''b'')) @
     drop (2 + length setup_html)
       (rewritten [CHR 0x0A] (''a'' @ [CHR 0x0D, CHR 0x0A] @ marker @ ''b'')) =
     ''a'' @ [CHR 0x0A] @ marker @ ''b'' \<and>
   sublist marker (''a'' @ marker @ ''b'') \<and> CHR 0x0D \<notin> set (''a'' @ marker @ ''b'') \<and>
   take 1 (rewritten [CHR 0x0A] (''a'' @ marker @ ''b'')) @
     drop (1 + length setup_html) (rewritten [CHR 0x0A] (''a'' @ marker @ ''b'')) =
     ''a'' @ marker @ ''b''"
proof -
  let ?C = "''a'' @ [CHR 0x0D, CHR 0x0A] @ marker @ ''b''"
  let ?D = "''a'' @ marker @ ''b''"
  have "?C = (''a'' @ [CHR 0x0D, CHR 0x0A]) @ marker @ ''b''" by simp
  then have hC: "sublist marker ?C" unfolding sublist_def by blast
  have hD: "sublist marker ?D" unfolding sublist_def by blast
  have nD: "CHR 0x0D \<notin> set ?D" using marker_no_return by simp
  have "CHR 0x0D \<notin> set (marker @ ''b'')" using marker_no_return by simp
  from universal_newlines_id[OF this]
  have uC: "universal_newlines ?C = ''a'' @ [CHR 0x0A] @ marker @ ''b''" by simp
  have fC: "first_index marker (''a'' @ [CHR 0x0A] @ marker @ ''b'') = Some 2" by code_simp
  have uD: "universal_newlines ?D = ?D" using nD by (rule universal_newlines_id)
  have fD: "first_index marker ?D = Some 1" by code_simp
  from removing_block_restores_newlines[OF hC] fC
  have 1: "take 2 (rewritten [CHR 0x0A] ?C) @
             drop (2 + length setup_html) (rewritten [CHR 0x0A] ?C) =
           ''a'' @ [CHR 0x0A] @ marker @ ''b''"
    by (auto simp only: uC option.inject)
  from removing_block_restores_newlines[OF hD] fD
  have 2: "take 1 (rewritten [CHR 0x0A] ?D) @
             drop (1 + length setup_html) (rewritten [CHR 0x0A] ?D) = ?D"
    by (auto simp only: uD option.inject)
  from hC 1 hD nD 2 show ?thesis by blast
qed

section \<open>Properties of a run\<close>

text \<open>
  Claim C6. The script ends normally exactly when the file can be read and written; then
  the exit status is 0 and nothing is written to the standard error. When an operation on
  the file raises, the exception reaches the top level, the exit status is not 0 and the
  standard error receives the header of the traceback and the diagnostic line of the
  exception. The exception is the one of the failed operation: a missing file, a file
  that may not be read, bytes that do not decode, a file that may not be written, and a
  device without room for the new text; the diagnostic of a failed \<^verbatim>\<open>open\<close> names the
  class of the error, the reason and the path of the file.
\<close>

theorem exit_status_and_stderr:
  "(fst (script w) = None \<longleftrightarrow> read_ok w \<and> write_ok w) \<and>
   (fst (script w) = None \<longrightarrow> fst (main w) = 0 \<and> stderr (snd (main w)) = stderr w) \<and>
   (\<forall>e. fst (script w) = Some e \<longrightarrow>
      fst (main w) \<noteq> 0 \<and>
      stderr (snd (main w)) =
        stderr w @ ''Traceback (most recent call last):'' @ [CHR 0x0A] @
        diagnostic e @ [CHR 0x0A]) \<and>
   (fs w path = None \<longrightarrow> fst (script w) = Some FileNotFoundError) \<and>
   (\<forall>f. fs w path = Some f \<and> \<not> perm_r f \<longrightarrow> fst (script w) = Some PermissionError) \<and>
   (\<forall>f. fs w path = Some f \<and> perm_r f \<and> contents f = None \<longrightarrow>
      fst (script w) = Some UnicodeDecodeError) \<and>
   (\<forall>f C. fs w path = Some f \<and> perm_r f \<and> contents f = Some C \<and> \<not> perm_w f \<longrightarrow>
      fst (script w) = Some PermissionError) \<and>
   (\<forall>f C. fs w path = Some f \<and> perm_r f \<and> contents f = Some C \<and> perm_w f \<and>
      \<not> fits (space w) (insert_setup C) \<longrightarrow> fst (script w) = Some OSError) \<and>
   diagnostic FileNotFoundError =
     ''FileNotFoundError: [Errno 2] No such file or directory: '' @
     [CHR 0x27] @ ''web/index.html'' @ [CHR 0x27] \<and>
   diagnostic PermissionError =
     ''PermissionError: [Errno 13] Permission denied: '' @
     [CHR 0x27] @ ''web/index.html'' @ [CHR 0x27] \<and>
   diagnostic UnicodeDecodeError = ''UnicodeDecodeError'' \<and>
   diagnostic OSError = ''OSError: [Errno 28] No space left on device''"
proof (intro conjI allI impI)
  show "fst (script w) = None \<longleftrightarrow> read_ok w \<and> write_ok w" by (rule script_None_iff)
next
  assume "fst (script w) = None"
  then have m: "main w = (0, snd (script w))" by (rule main_ok)
  show "fst (main w) = 0" by (simp add: m)
  show "stderr (snd (main w)) = stderr w" by (simp add: m script_stderr)
next
  fix e assume "fst (script w) = Some e"
  then have m: "main w = (1, (snd (script w))\<lparr>stderr := stderr (snd (script w)) @ traceback e\<rparr>)"
    by (rule main_failed)
  show "fst (main w) \<noteq> 0" by (simp add: m)
  show "stderr (snd (main w)) =
          stderr w @ ''Traceback (most recent call last):'' @ [CHR 0x0A] @
          diagnostic e @ [CHR 0x0A]"
    by (simp add: m script_stderr traceback_def)
next
  assume "fs w path = None"
  then show "fst (script w) = Some FileNotFoundError"
    by (simp add: script_def open_r_def)
next
  fix f assume "fs w path = Some f \<and> \<not> perm_r f"
  then show "fst (script w) = Some PermissionError"
    by (simp add: script_def open_r_def)
next
  fix f assume "fs w path = Some f \<and> perm_r f \<and> contents f = None"
  then show "fst (script w) = Some UnicodeDecodeError"
    by (simp add: script_def open_r_def f_read_def)
next
  fix f C assume "fs w path = Some f \<and> perm_r f \<and> contents f = Some C \<and> \<not> perm_w f"
  then show "fst (script w) = Some PermissionError"
    by (simp add: script_unwritable)
next
  fix f C
  assume a: "fs w path = Some f \<and> perm_r f \<and> contents f = Some C \<and> perm_w f \<and>
             \<not> fits (space w) (insert_setup C)"
  then obtain k where "space w = Some k" "k < length (insert_setup C)"
    by (auto simp: fits_def split: option.splits)
  with a show "fst (script w) = Some OSError"
    by (simp add: script_no_space)
next
  show "diagnostic FileNotFoundError =
     ''FileNotFoundError: [Errno 2] No such file or directory: '' @
     [CHR 0x27] @ ''web/index.html'' @ [CHR 0x27]"
    by (simp add: quoted_def path_def)
  show "diagnostic PermissionError =
     ''PermissionError: [Errno 13] Permission denied: '' @
     [CHR 0x27] @ ''web/index.html'' @ [CHR 0x27]"
    by (simp add: quoted_def path_def)
  show "diagnostic UnicodeDecodeError = ''UnicodeDecodeError''" by simp
  show "diagnostic OSError = ''OSError: [Errno 28] No space left on device''" by simp
qed

theorem exit_status_and_stderr_witness:
  "fst (script (world_with (Some marker) True True None)) = None \<and>
   fst (main (world_with (Some marker) True True None)) = 0 \<and>
   stderr (snd (main (world_with (Some marker) True True None))) = [] \<and>
   fst (script (world_with (Some marker) False True None)) = Some PermissionError \<and>
   fst (main (world_with (Some marker) False True None)) \<noteq> 0 \<and>
   stderr (snd (main (world_with (Some marker) False True None))) =
     ''Traceback (most recent call last):'' @ [CHR 0x0A] @
     ''PermissionError: [Errno 13] Permission denied: '' @
     [CHR 0x27] @ ''web/index.html'' @ [CHR 0x27] @ [CHR 0x0A]"
proof -
  let ?a = "world_with (Some marker) True True None"
  let ?b = "world_with (Some marker) False True None"
  let ?f = "\<lparr>contents = Some marker, perm_r = False, perm_w = True\<rparr>"
  have ra: "read_ok ?a \<and> write_ok ?a"
    by (simp add: read_ok_def write_ok_def world_with_def fits_def)
  have ea: "stderr ?a = []" by (simp add: world_with_def)
  have fb: "fs ?b path = Some ?f \<and> \<not> perm_r ?f" by (simp add: world_with_def)
  have eb: "stderr ?b = []" by (simp add: world_with_def)
  from exit_status_and_stderr[of ?a] ra
  have a: "fst (script ?a) = None \<and> fst (main ?a) = 0 \<and> stderr (snd (main ?a)) = stderr ?a"
    by blast
  from exit_status_and_stderr[of ?b] fb
  have b: "fst (script ?b) = Some PermissionError" by blast
  with exit_status_and_stderr[of ?b]
  have c: "fst (main ?b) \<noteq> 0 \<and>
           stderr (snd (main ?b)) =
             stderr ?b @ ''Traceback (most recent call last):'' @ [CHR 0x0A] @
             diagnostic PermissionError @ [CHR 0x0A]"
    by blast
  from exit_status_and_stderr[of ?b]
  have d: "diagnostic PermissionError =
     ''PermissionError: [Errno 13] Permission denied: '' @
     [CHR 0x27] @ ''web/index.html'' @ [CHR 0x27]"
    by blast
  from a b c show ?thesis by (simp only: ea eb d append_Nil append_assoc) simp
qed

text \<open>
  Claim C7. When the file can be read but may not be written, the script ends with
  \<^verbatim>\<open>PermissionError\<close>, the exit status is not 0 and the world, the file included, is
  the one before the run.
\<close>

theorem unwritable_file_untouched:
  assumes "fs w path = Some f" and "perm_r f" and "contents f = Some C" and "\<not> perm_w f"
  shows "script w = (Some PermissionError, w) \<and> fst (main w) \<noteq> 0 \<and>
         fs (snd (main w)) = fs w"
proof -
  have s: "script w = (Some PermissionError, w)" using assms by (rule script_unwritable)
  then have "main w = (1, w\<lparr>stderr := stderr w @ traceback PermissionError\<rparr>)"
    by (simp add: main_def)
  with s show ?thesis by simp
qed

theorem unwritable_file_untouched_witness:
  "script (world_with (Some marker) True False None) =
     (Some PermissionError, world_with (Some marker) True False None) \<and>
   fst (main (world_with (Some marker) True False None)) \<noteq> 0 \<and>
   file_text (snd (main (world_with (Some marker) True False None))) = Some marker"
proof -
  let ?w = "world_with (Some marker) True False None"
  let ?f = "\<lparr>contents = Some marker, perm_r = True, perm_w = False\<rparr>"
  have h: "fs ?w path = Some ?f" by (simp add: world_with_def)
  from unwritable_file_untouched[OF h, of marker]
  have r: "script ?w = (Some PermissionError, ?w) \<and> fst (main ?w) \<noteq> 0 \<and>
        fs (snd (main ?w)) = fs ?w" by simp
  then have "file_text (snd (main ?w)) = file_text ?w" by (simp add: file_text_def)
  also have "file_text ?w = Some marker" by (simp add: file_text_def world_with_def)
  finally show ?thesis using r by blast
qed

text \<open>
  Claim C8. Whenever the file can be read and written, the run exits with status 0 and
  prints the success line, whether or not the text holds the marker; when it does not,
  the file still holds the text it held before.
\<close>

theorem success_message_without_insertion:
  assumes "read_ok w" and "write_ok w" and "file_text w = Some C"
  shows "fst (main w) = 0 \<and>
         stdout (snd (main w)) =
           stdout w @ ''Setup wizard HTML inserted successfully'' @ [CHR 0x0A] \<and>
         stderr (snd (main w)) = stderr w \<and>
         (\<not> sublist marker C \<longrightarrow> file_text (snd (main w)) = Some C)"
proof -
  from assms(1,2) have n: "fst (script w) = None" by (simp add: script_None_iff)
  then have m: "main w = (0, snd (script w))" by (rule main_ok)
  from n have s: "script w = (None, snd (script w))" by (metis prod.collapse)
  from script_okD[OF s] obtain f D where
    w': "snd (script w) = print ''Setup wizard HTML inserted successfully''
            (store w path (f\<lparr>contents := Some (insert_setup D)\<rparr>))"
    by blast
  from script_ok_text[OF s] assms(3)
  have t: "file_text (snd (script w)) = Some (insert_setup C)" by auto
  have "stdout (snd (script w)) =
          stdout w @ ''Setup wizard HTML inserted successfully'' @ [CHR 0x0A]"
    unfolding w' by (simp add: print_def store_def)
  with m t show ?thesis by (simp add: script_stderr insert_setup_absent)
qed

theorem success_message_without_insertion_witness:
  "\<not> sublist marker ''<html></html>'' \<and>
   fst (main (world_with (Some ''<html></html>'') True True None)) = 0 \<and>
   stdout (snd (main (world_with (Some ''<html></html>'') True True None))) =
     ''Setup wizard HTML inserted successfully'' @ [CHR 0x0A] \<and>
   file_text (snd (main (world_with (Some ''<html></html>'') True True None))) =
     Some ''<html></html>''"
proof -
  let ?w = "world_with (Some ''<html></html>'') True True None"
  have r: "read_ok ?w" by (simp add: read_ok_def world_with_def)
  have wr: "write_ok ?w" by (simp add: write_ok_def world_with_def fits_def)
  have t: "file_text ?w = Some ''<html></html>''" by (simp add: file_text_def world_with_def)
  have a: "\<not> sublist marker ''<html></html>''" by code_simp
  have o: "stdout ?w = []" by (simp add: world_with_def)
  from success_message_without_insertion[OF r wr t] a o show ?thesis by simp
qed





end
